theory Spec2Isabelle
  imports Complex_Main "HOL-Library.AList" "HOL-Library.Multiset"
begin

section \<open>Decision trees (ID3) of the decision-tree notebook\<close>

text \<open>
  The notebook builds classification trees over examples \<open>(attribute_dict, label)\<close>.
  A Python \<open>dict\<close> is modelled as an association list in insertion order
  (\<open>map_of\<close> reads it, \<open>AList.update\<close> is \<open>d[k] = v\<close>: it overwrites in place
  or appends a new key at the end).  Attribute names and attribute values are strings;
  the key \<open>None\<close> of a subtree dictionary is the \<open>None\<close> of \<open>string option\<close>.
  Python exceptions are values of \<open>py_error\<close>, and a function that may raise returns
  \<open>py_error + 'a\<close>.  Python floats are idealised as real numbers.
\<close>

subsection \<open>Data model\<close>

datatype py_error = IndexError | KeyError | ZeroDivisionError | ValueError

type_synonym attrs = "(string \<times> string) list"

type_synonym example = "attrs \<times> bool"

text \<open>A tree is \<open>True\<close>, \<open>False\<close> or a tuple \<open>(attribute, subtree_dict)\<close>.\<close>

datatype tree = Leaf bool | Node string "(string option \<times> tree) list"

subsection \<open>Python builtins used by the notebook\<close>

text \<open>\<open>[f(x) for x in xs]\<close> where \<open>f\<close> may raise: the first exception wins.\<close>

fun collect :: "('e + 'a) list \<Rightarrow> 'e + 'a list" where
  "collect [] = Inr []"
| "collect (r # rs) =
     (case r of
        Inl e \<Rightarrow> Inl e
      | Inr x \<Rightarrow> (case collect rs of Inl e \<Rightarrow> Inl e | Inr xs \<Rightarrow> Inr (x # xs)))"

text \<open>
  \<open>Counter(xs)\<close>: for each element in turn, \<open>self[elem] = self.get(elem, 0) + 1\<close>.
  The keys are in the order of first occurrence.
\<close>

fun count_elements :: "('a \<times> nat) list \<Rightarrow> 'a list \<Rightarrow> ('a \<times> nat) list" where
  "count_elements c [] = c"
| "count_elements c (x # xs) =
     count_elements (AList.update x ((case map_of c x of None \<Rightarrow> 0 | Some n \<Rightarrow> n) + 1) c) xs"

definition Counter :: "'a list \<Rightarrow> ('a \<times> nat) list" where
  "Counter xs = count_elements [] xs"

text \<open>
  \<open>min(xs, key=f)\<close>: the key of each element is computed in turn (the first exception
  wins) and the running minimum is replaced only by a strictly smaller key, so the
  first minimal element is returned; \<open>min\<close> of an empty sequence raises \<open>ValueError\<close>.
\<close>

fun min_loop :: "'a \<Rightarrow> 'b::linorder \<Rightarrow> 'a list \<Rightarrow> ('a \<Rightarrow> py_error + 'b) \<Rightarrow> py_error + 'a" where
  "min_loop best bk [] key = Inr best"
| "min_loop best bk (x # xs) key =
     (case key x of
        Inl e \<Rightarrow> Inl e
      | Inr k \<Rightarrow> if k < bk then min_loop x k xs key else min_loop best bk xs key)"

fun py_min :: "'a list \<Rightarrow> ('a \<Rightarrow> py_error + 'b::linorder) \<Rightarrow> py_error + 'a" where
  "py_min [] key = Inl ValueError"
| "py_min (x # xs) key =
     (case key x of Inl e \<Rightarrow> Inl e | Inr k \<Rightarrow> min_loop x k xs key)"

text \<open>
  \<open>Counter.most_common(1)\<close> is \<open>heapq.nlargest(1, self.items(), key=itemgetter(1))\<close>,
  which for \<open>n = 1\<close> is \<open>max\<close> over the items by count: the running maximum is
  replaced only by a strictly larger count, so the first item of maximal count is
  returned (in a one-element list), and the empty list for an empty counter.
\<close>

fun max_loop :: "'a \<times> nat \<Rightarrow> ('a \<times> nat) list \<Rightarrow> 'a \<times> nat" where
  "max_loop best [] = best"
| "max_loop best (x # xs) = (if snd x > snd best then max_loop x xs else max_loop best xs)"

fun most_common_1 :: "('a \<times> nat) list \<Rightarrow> ('a \<times> nat) list" where
  "most_common_1 [] = []"
| "most_common_1 (x # xs) = [max_loop x xs]"

subsection \<open>Entropy\<close>

definition entropy :: "real list \<Rightarrow> real" where
  "entropy class_probs = sum_list (map (\<lambda>p. - p * log 2 p) (filter (\<lambda>p. p \<noteq> 0) class_probs))"

definition class_probabilities :: "'a list \<Rightarrow> real list" where
  "class_probabilities labels =
     (let total_count = length labels
      in map (\<lambda>count. real count / real total_count) (map snd (Counter labels)))"

definition data_entropy :: "('a \<times> 'l) list \<Rightarrow> real" where
  "data_entropy labeled_data =
     (let labels = map snd labeled_data;
          probabilities = class_probabilities labels
      in entropy probabilities)"

text \<open>
  \<open>partition_entropy\<close> divides by \<open>total_count\<close> once for each subset: with at least
  one subset and no element at all, Python raises \<open>ZeroDivisionError\<close>.
\<close>

definition partition_entropy :: "('a \<times> 'l) list list \<Rightarrow> py_error + real" where
  "partition_entropy subsets =
     (let total_count = sum_list (map length subsets)
      in if subsets \<noteq> [] \<and> total_count = 0 then Inl ZeroDivisionError
         else Inr (sum_list (map (\<lambda>subset. data_entropy subset * real (length subset) / real total_count)
                                 subsets)))"

subsection \<open>Partitioning\<close>

text \<open>
  \<open>group_by\<close> fills a \<open>defaultdict(list)\<close>: \<open>groups[key].append(item)\<close> creates the
  empty list for a new key (appended at the end of the dictionary) and then appends.
\<close>

fun group_by_loop :: "('k \<times> 'a list) list \<Rightarrow> 'a list \<Rightarrow> ('a \<Rightarrow> py_error + 'k) \<Rightarrow> py_error + ('k \<times> 'a list) list" where
  "group_by_loop groups [] key_fn = Inr groups"
| "group_by_loop groups (item # items) key_fn =
     (case key_fn item of
        Inl e \<Rightarrow> Inl e
      | Inr key \<Rightarrow>
          group_by_loop
            (AList.update key ((case map_of groups key of None \<Rightarrow> [] | Some l \<Rightarrow> l) @ [item]) groups)
            items key_fn)"

definition group_by :: "'a list \<Rightarrow> ('a \<Rightarrow> py_error + 'k) \<Rightarrow> py_error + ('k \<times> 'a list) list" where
  "group_by items key_fn = group_by_loop [] items key_fn"

text \<open>The key function \<open>lambda x: x[0][attribute]\<close> raises \<open>KeyError\<close> on a missing attribute.\<close>

definition attribute_of :: "string \<Rightarrow> example \<Rightarrow> py_error + string" where
  "attribute_of attribute x =
     (case map_of (fst x) attribute of None \<Rightarrow> Inl KeyError | Some v \<Rightarrow> Inr v)"

definition partition_by :: "example list \<Rightarrow> string \<Rightarrow> py_error + (string \<times> example list) list" where
  "partition_by inputs attribute = group_by inputs (attribute_of attribute)"

definition partition_entropy_by :: "example list \<Rightarrow> string \<Rightarrow> py_error + real" where
  "partition_entropy_by inputs attribute =
     (case partition_by inputs attribute of
        Inl e \<Rightarrow> Inl e
      | Inr partitions \<Rightarrow> partition_entropy (map snd partitions))"

subsection \<open>Classification\<close>

lemma size_subtree:
  "map_of subtree_dict k = Some subtree \<Longrightarrow> size subtree < Suc (size_list (size_prod (\<lambda>_. 0) size) subtree_dict)"
  by (induction subtree_dict) (auto split: if_splits)

function classify :: "tree \<Rightarrow> attrs \<Rightarrow> py_error + bool" where
  "classify (Leaf b) input = Inr b"
| "classify (Node attribute subtree_dict) input =
     (let subtree_key = map_of input attribute;
          subtree_key = (if subtree_key \<notin> fst ` set subtree_dict then None else subtree_key)
      in case map_of subtree_dict subtree_key of
           None \<Rightarrow> Inl KeyError
         | Some subtree \<Rightarrow> classify subtree input)"
  by pat_completeness auto
termination
  by (relation "measure (\<lambda>(t, input). size t)") (auto dest: size_subtree)

definition forest_classify :: "tree list \<Rightarrow> attrs \<Rightarrow> py_error + bool" where
  "forest_classify trees input =
     (case collect (map (\<lambda>tree. classify tree input) trees) of
        Inl e \<Rightarrow> Inl e
      | Inr votes \<Rightarrow>
          (let vote_counts = Counter votes
           in case most_common_1 vote_counts of
                [] \<Rightarrow> Inl IndexError
              | item # _ \<Rightarrow> Inr (fst item)))"

subsection \<open>Tree induction\<close>

lemma min_loop_in_set: "min_loop best bk xs key = Inr a \<Longrightarrow> a = best \<or> a \<in> set xs"
  by (induction xs arbitrary: best bk) (auto split: sum.splits if_splits)

lemma py_min_in_set: "py_min xs key = Inr a \<Longrightarrow> a \<in> set xs"
  by (cases xs) (auto split: sum.splits dest: min_loop_in_set)

lemma length_filter_neq: "a \<in> set xs \<Longrightarrow> length (filter (\<lambda>x. x \<noteq> a) xs) < length xs"
  by (induction xs) (auto simp: less_Suc_eq_le)

text \<open>
  The body of \<open>build_tree_id3\<close> once \<open>split_candidates\<close> is a list: every recursive
  call of the source passes the list \<open>new_candidates\<close>.
\<close>

function build_tree_id3_from :: "example list \<Rightarrow> string list \<Rightarrow> py_error + tree" where
  "build_tree_id3_from inputs split_candidates =
     (let num_inputs = length inputs;
          num_trues = length (filter (\<lambda>(item, label). label) inputs);
          num_falses = num_inputs - num_trues
      in if num_trues = 0 then Inr (Leaf False)
         else if num_falses = 0 then Inr (Leaf True)
         else if split_candidates = [] then Inr (Leaf (num_trues \<ge> num_falses))
         else (case py_min split_candidates (partition_entropy_by inputs) of
                 Inl e \<Rightarrow> Inl e
               | Inr best_attribute \<Rightarrow>
                   (case partition_by inputs best_attribute of
                      Inl e \<Rightarrow> Inl e
                    | Inr partitions \<Rightarrow>
                        (let new_candidates = filter (\<lambda>a. a \<noteq> best_attribute) split_candidates
                         in case collect (map (\<lambda>(attribute, subset).
                                    case build_tree_id3_from subset new_candidates of
                                      Inl e \<Rightarrow> Inl e
                                    | Inr subtree \<Rightarrow> Inr (Some attribute, subtree)) partitions) of
                              Inl e \<Rightarrow> Inl e
                            | Inr subtrees \<Rightarrow>
                                Inr (Node best_attribute
                                       (AList.update None (Leaf (num_trues > num_falses)) subtrees))))))"
  by pat_completeness auto
termination
  by (relation "measure (\<lambda>(inputs, cands). length cands)")
     (auto dest!: py_min_in_set intro: length_filter_neq)

text \<open>
  \<open>build_tree_id3(inputs, split_candidates=None)\<close>: on the first pass the candidates
  are the keys of the first input, and \<open>inputs[0]\<close> raises \<open>IndexError\<close> on no input.
\<close>

definition first_pass :: "example list \<Rightarrow> string list option \<Rightarrow> py_error + string list" where
  "first_pass inputs split_candidates =
     (case split_candidates of
        None \<Rightarrow> (case inputs of [] \<Rightarrow> Inl IndexError | x # _ \<Rightarrow> Inr (map fst (fst x)))
      | Some cands \<Rightarrow> Inr cands)"

definition build_tree_id3 :: "example list \<Rightarrow> string list option \<Rightarrow> py_error + tree" where
  "build_tree_id3 inputs split_candidates =
     (case first_pass inputs split_candidates of
        Inl e \<Rightarrow> Inl e
      | Inr cands \<Rightarrow> build_tree_id3_from inputs cands)"

subsection \<open>Properties of trees and of runs of the builder\<close>

text \<open>Every decision node of the tree, at every depth, has the key \<open>None\<close>.\<close>

fun has_missing_entry :: "tree \<Rightarrow> bool" where
  "has_missing_entry (Leaf b) = True"
| "has_missing_entry (Node attribute subtree_dict) =
     (None \<in> fst ` set subtree_dict \<and> list_all (\<lambda>(k, subtree). has_missing_entry subtree) subtree_dict)"

text \<open>
  \<open>majority_fallback inputs cands\<close> follows the recursion of the builder and tells
  whether some node reaches \<open>if not split_candidates\<close> with both labels present, that
  is, whether some leaf of the run is a majority leaf instead of a same-label leaf.
\<close>

function majority_fallback :: "example list \<Rightarrow> string list \<Rightarrow> bool" where
  "majority_fallback inputs split_candidates =
     (let num_inputs = length inputs;
          num_trues = length (filter (\<lambda>(item, label). label) inputs);
          num_falses = num_inputs - num_trues
      in if num_trues = 0 then False
         else if num_falses = 0 then False
         else if split_candidates = [] then True
         else (case py_min split_candidates (partition_entropy_by inputs) of
                 Inl e \<Rightarrow> False
               | Inr best_attribute \<Rightarrow>
                   (case partition_by inputs best_attribute of
                      Inl e \<Rightarrow> False
                    | Inr partitions \<Rightarrow>
                        (let new_candidates = filter (\<lambda>a. a \<noteq> best_attribute) split_candidates
                         in list_ex (\<lambda>(attribute, subset). majority_fallback subset new_candidates)
                              partitions))))"
  by pat_completeness auto
termination
  by (relation "measure (\<lambda>(inputs, cands). length cands)")
     (auto dest!: py_min_in_set intro: length_filter_neq)

text \<open>The count \<open>num_trues\<close> of the builder; \<open>num_falses\<close> is \<open>length inputs - num_trues inputs\<close>.\<close>

definition num_trues :: "example list \<Rightarrow> nat" where
  "num_trues inputs = length (filter (\<lambda>(item, label). label) inputs)"

subsection \<open>The hiring data of the notebook\<close>

text \<open>
  The notebook's global \<open>inputs\<close> (here \<open>hiring_inputs\<close>, since \<open>inputs\<close> is also the
  name of the parameter of every function), its \<open>senior_inputs\<close>, the same selection
  for the two other levels, and the tree that the notebook prints.
\<close>

definition hiring_inputs :: "example list" where
  "hiring_inputs =
   [([(''level'', ''Senior''), (''lang'', ''Java''), (''tweets'', ''no''), (''phd'', ''no'')], False),
    ([(''level'', ''Senior''), (''lang'', ''Java''), (''tweets'', ''no''), (''phd'', ''yes'')], False),
    ([(''level'', ''Mid''), (''lang'', ''Python''), (''tweets'', ''no''), (''phd'', ''no'')], True),
    ([(''level'', ''Junior''), (''lang'', ''Python''), (''tweets'', ''no''), (''phd'', ''no'')], True),
    ([(''level'', ''Junior''), (''lang'', ''R''), (''tweets'', ''yes''), (''phd'', ''no'')], True),
    ([(''level'', ''Junior''), (''lang'', ''R''), (''tweets'', ''yes''), (''phd'', ''yes'')], False),
    ([(''level'', ''Mid''), (''lang'', ''R''), (''tweets'', ''yes''), (''phd'', ''yes'')], True),
    ([(''level'', ''Senior''), (''lang'', ''Python''), (''tweets'', ''no''), (''phd'', ''no'')], False),
    ([(''level'', ''Senior''), (''lang'', ''R''), (''tweets'', ''yes''), (''phd'', ''no'')], True),
    ([(''level'', ''Junior''), (''lang'', ''Python''), (''tweets'', ''yes''), (''phd'', ''no'')], True),
    ([(''level'', ''Senior''), (''lang'', ''Python''), (''tweets'', ''yes''), (''phd'', ''yes'')], True),
    ([(''level'', ''Mid''), (''lang'', ''Python''), (''tweets'', ''no''), (''phd'', ''yes'')], True),
    ([(''level'', ''Mid''), (''lang'', ''Java''), (''tweets'', ''yes''), (''phd'', ''no'')], True),
    ([(''level'', ''Junior''), (''lang'', ''Python''), (''tweets'', ''no''), (''phd'', ''yes'')], False)]"

definition senior_inputs :: "example list" where
  "senior_inputs = filter (\<lambda>(input, label). map_of input ''level'' = Some ''Senior'') hiring_inputs"

definition mid_inputs :: "example list" where
  "mid_inputs = filter (\<lambda>(input, label). map_of input ''level'' = Some ''Mid'') hiring_inputs"

definition junior_inputs :: "example list" where
  "junior_inputs = filter (\<lambda>(input, label). map_of input ''level'' = Some ''Junior'') hiring_inputs"

definition hiring_tree :: tree where
  "hiring_tree =
     Node ''level''
       [(Some ''Senior'', Node ''tweets'' [(Some ''no'', Leaf False), (Some ''yes'', Leaf True), (None, Leaf False)]),
        (Some ''Mid'', Leaf True),
        (Some ''Junior'', Node ''phd'' [(Some ''no'', Leaf True), (Some ''yes'', Leaf False), (None, Leaf True)]),
        (None, Leaf True)]"

text \<open>Two examples with one label each, and two examples without any attribute.\<close>

definition tie_inputs :: "example list" where
  "tie_inputs = [([(''phd'', ''no'')], True), ([(''phd'', ''yes'')], False)]"

definition bare_inputs :: "example list" where
  "bare_inputs = [([], True), ([], False)]"

section \<open>Lemmas\<close>

declare build_tree_id3_from.simps [simp del] majority_fallback.simps [simp del]

subsection \<open>Comprehensions and dictionaries\<close>

lemma collect_map_all2:
  "collect (map f xs) = Inr ys \<Longrightarrow> list_all2 (\<lambda>x y. f x = Inr y) xs ys"
  by (induction xs arbitrary: ys) (auto split: sum.splits)

lemma set_update_cases:
  "p \<in> set (AList.update k v al) \<Longrightarrow> p = (k, v) \<or> p \<in> set al"
  by (induction al) (auto split: if_splits)

lemma collect_Cons:
  "collect (r # rs) = Inr votes \<Longrightarrow> \<exists>b vs. votes = b # vs \<and> r = Inr b \<and> collect rs = Inr vs"
  by (auto split: sum.splits)

subsection \<open>Grouping\<close>

lemma map_of_group_by_loop:
  "group_by_loop groups items key_fn = Inr g \<Longrightarrow>
   map_of g k =
     (if map_of groups k = None \<and> filter (\<lambda>x. key_fn x = Inr k) items = [] then None
      else Some ((case map_of groups k of None \<Rightarrow> [] | Some l \<Rightarrow> l) @ filter (\<lambda>x. key_fn x = Inr k) items))"
proof (induction items arbitrary: groups)
  case Nil
  then show ?case by (auto split: option.splits)
next
  case (Cons item items)
  then show ?case
    by (auto simp: update_conv' split: sum.splits option.splits)
qed

lemma distinct_group_by_loop:
  "group_by_loop groups items key_fn = Inr g \<Longrightarrow> distinct (map fst groups) \<Longrightarrow> distinct (map fst g)"
  by (induction items arbitrary: groups) (auto simp: distinct_update split: sum.splits)

lemma group_by_loop_succeeds:
  "\<forall>x\<in>set items. \<exists>k. key_fn x = Inr k \<Longrightarrow> \<exists>g. group_by_loop groups items key_fn = Inr g"
  by (induction items arbitrary: groups) (auto split: sum.splits)

lemma group_by_loop_keys:
  "group_by_loop groups items key_fn = Inr g \<Longrightarrow> x \<in> set items \<Longrightarrow> \<exists>k. key_fn x = Inr k"
  by (induction items arbitrary: groups) (auto split: sum.splits)

lemma group_by_loop_KeyError:
  "\<exists>x\<in>set items. key_fn x = Inl KeyError \<Longrightarrow> \<forall>x\<in>set items. \<forall>e. key_fn x = Inl e \<longrightarrow> e = KeyError \<Longrightarrow>
   group_by_loop groups items key_fn = Inl KeyError"
  by (induction items arbitrary: groups) (auto split: sum.splits)

lemma mset_update_append:
  "mset (concat (map snd (AList.update k ((case map_of al k of None \<Rightarrow> [] | Some l \<Rightarrow> l) @ [x]) al))) =
   mset (concat (map snd al)) + {#x#}"
  by (induction al) auto

lemma mset_group_by_loop:
  "group_by_loop groups items key_fn = Inr g \<Longrightarrow>
   mset (concat (map snd g)) = mset (concat (map snd groups)) + mset items"
  by (induction items arbitrary: groups) (auto simp: mset_update_append split: sum.splits)

lemma partition_by_lookup:
  assumes "partition_by inputs a = Inr parts" "e \<in> set inputs"
  shows "\<exists>v sub. map_of (fst e) a = Some v \<and> map_of parts v = Some sub \<and> e \<in> set sub"
proof -
  from assms have loop: "group_by_loop [] inputs (attribute_of a) = Inr parts"
    by (simp add: partition_by_def group_by_def)
  from group_by_loop_keys [OF loop assms(2)] obtain v where v: "attribute_of a e = Inr v"
    by blast
  then have "map_of (fst e) a = Some v"
    by (auto simp: attribute_of_def split: option.splits)
  moreover from v assms(2) have "e \<in> set (filter (\<lambda>x. attribute_of a x = Inr v) inputs)"
    by simp
  moreover from this have "map_of parts v = Some (filter (\<lambda>x. attribute_of a x = Inr v) inputs)"
    using map_of_group_by_loop [OF loop, of v] by (auto simp: filter_empty_conv)
  ultimately show ?thesis by blast
qed

subsection \<open>Counting votes\<close>

lemma count_elements_two:
  "b \<noteq> c \<Longrightarrow> set vs \<subseteq> {b, c} \<Longrightarrow>
   count_elements [(b, n), (c, m)] vs = [(b, n + count_list vs b), (c, m + count_list vs c)]"
proof (induction vs arbitrary: n m)
  case Nil
  then show ?case by simp
next
  case (Cons v vs)
  from Cons.prems have vbc: "v = b \<or> v = c" and sub: "set vs \<subseteq> {b, c}" by auto
  from vbc show ?case
  proof
    assume v: "v = b"
    have "count_elements [(b, n), (c, m)] (v # vs) = count_elements [(b, n + 1), (c, m)] vs"
      using v Cons.prems(1) by simp
    also have "\<dots> = [(b, n + 1 + count_list vs b), (c, m + count_list vs c)]"
      by (rule Cons.IH [OF Cons.prems(1) sub])
    finally show ?thesis using v Cons.prems(1) by simp
  next
    assume v: "v = c"
    have "count_elements [(b, n), (c, m)] (v # vs) = count_elements [(b, n), (c, m + 1)] vs"
      using v Cons.prems(1) by simp
    also have "\<dots> = [(b, n + count_list vs b), (c, m + 1 + count_list vs c)]"
      by (rule Cons.IH [OF Cons.prems(1) sub])
    finally show ?thesis using v Cons.prems(1) by simp
  qed
qed

lemma count_elements_one:
  "b \<noteq> c \<Longrightarrow> set vs \<subseteq> {b, c} \<Longrightarrow>
   count_elements [(b, n)] vs =
     (if c \<in> set vs then [(b, n + count_list vs b), (c, count_list vs c)]
      else [(b, n + count_list vs b)])"
proof (induction vs arbitrary: n)
  case Nil
  then show ?case by simp
next
  case (Cons v vs)
  from Cons.prems have vbc: "v = b \<or> v = c" and sub: "set vs \<subseteq> {b, c}" by auto
  from vbc show ?case
  proof
    assume v: "v = b"
    have "count_elements [(b, n)] (v # vs) = count_elements [(b, n + 1)] vs"
      using v by simp
    also note Cons.IH [OF Cons.prems(1) sub, of "n + 1"]
    finally show ?thesis using v Cons.prems(1) by simp
  next
    assume v: "v = c"
    have "count_elements [(b, n)] (v # vs) = count_elements [(b, n), (c, 0 + 1)] vs"
      using v Cons.prems(1) by simp
    also note count_elements_two [OF Cons.prems(1) sub, of n "0 + 1"]
    finally show ?thesis using v Cons.prems(1) by simp
  qed
qed

lemma most_common_votes:
  fixes b :: bool
  assumes "count_list (b # vs) (\<not> b) \<le> count_list (b # vs) b"
  shows "most_common_1 (Counter (b # vs)) = [(b, count_list (b # vs) b)]"
proof -
  have ne: "b \<noteq> (\<not> b)" by simp
  have sub: "set vs \<subseteq> {b, \<not> b}" by auto
  have "Counter (b # vs) = count_elements [(b, 0 + 1)] vs"
    by (simp add: Counter_def)
  also note count_elements_one [OF ne sub, of "0 + 1"]
  finally have c: "Counter (b # vs) =
     (if (\<not> b) \<in> set vs then [(b, 0 + 1 + count_list vs b), (\<not> b, count_list vs (\<not> b))]
      else [(b, 0 + 1 + count_list vs b)])" .
  show ?thesis
  proof (cases "(\<not> b) \<in> set vs")
    case True
    with c have "Counter (b # vs) = [(b, 0 + 1 + count_list vs b), (\<not> b, count_list vs (\<not> b))]"
      by (simp only: if_True)
    with assms show ?thesis by simp
  next
    case False
    with c have "Counter (b # vs) = [(b, 0 + 1 + count_list vs b)]"
      by (simp only: if_False)
    then show ?thesis by simp
  qed
qed

subsection \<open>One level of the builder\<close>

lemma build_false_leaf:
  "num_trues inputs = 0 \<Longrightarrow> build_tree_id3_from inputs cands = Inr (Leaf False)"
  unfolding num_trues_def by (subst build_tree_id3_from.simps) (simp add: Let_def)

lemma build_true_leaf:
  "num_trues inputs \<noteq> 0 \<Longrightarrow> length inputs - num_trues inputs = 0 \<Longrightarrow>
   build_tree_id3_from inputs cands = Inr (Leaf True)"
  unfolding num_trues_def by (subst build_tree_id3_from.simps) (simp add: Let_def)

lemma build_majority_leaf:
  "num_trues inputs \<noteq> 0 \<Longrightarrow> length inputs - num_trues inputs \<noteq> 0 \<Longrightarrow>
   build_tree_id3_from inputs [] = Inr (Leaf (num_trues inputs \<ge> length inputs - num_trues inputs))"
  unfolding num_trues_def by (subst build_tree_id3_from.simps) (simp add: Let_def)

lemma build_node:
  "num_trues inputs \<noteq> 0 \<Longrightarrow> length inputs - num_trues inputs \<noteq> 0 \<Longrightarrow> cands \<noteq> [] \<Longrightarrow>
   py_min cands (partition_entropy_by inputs) = Inr best \<Longrightarrow>
   partition_by inputs best = Inr partitions \<Longrightarrow>
   build_tree_id3_from inputs cands =
     (case collect (map (\<lambda>(attribute, subset).
              case build_tree_id3_from subset (filter (\<lambda>a. a \<noteq> best) cands) of
                Inl e \<Rightarrow> Inl e
              | Inr subtree \<Rightarrow> Inr (Some attribute, subtree)) partitions) of
        Inl e \<Rightarrow> Inl e
      | Inr subtrees \<Rightarrow>
          Inr (Node best
                 (AList.update None (Leaf (num_trues inputs > length inputs - num_trues inputs))
                    subtrees)))"
  unfolding num_trues_def by (subst build_tree_id3_from.simps) (simp add: Let_def)

lemma build_py_min_fails:
  "num_trues inputs \<noteq> 0 \<Longrightarrow> length inputs - num_trues inputs \<noteq> 0 \<Longrightarrow> cands \<noteq> [] \<Longrightarrow>
   py_min cands (partition_entropy_by inputs) = Inl e \<Longrightarrow>
   build_tree_id3_from inputs cands = Inl e"
  unfolding num_trues_def by (subst build_tree_id3_from.simps) (simp add: Let_def)

lemma build_partition_fails:
  "num_trues inputs \<noteq> 0 \<Longrightarrow> length inputs - num_trues inputs \<noteq> 0 \<Longrightarrow> cands \<noteq> [] \<Longrightarrow>
   py_min cands (partition_entropy_by inputs) = Inr best \<Longrightarrow>
   partition_by inputs best = Inl e \<Longrightarrow>
   build_tree_id3_from inputs cands = Inl e"
  unfolding num_trues_def by (subst build_tree_id3_from.simps) (simp add: Let_def)

lemma build_cases:
  assumes "build_tree_id3_from inputs cands = Inr t"
  obtains
    (false_leaf) "num_trues inputs = 0" "t = Leaf False"
  | (true_leaf) "num_trues inputs \<noteq> 0" "length inputs - num_trues inputs = 0" "t = Leaf True"
  | (majority_leaf) "num_trues inputs \<noteq> 0" "length inputs - num_trues inputs \<noteq> 0" "cands = []"
      "t = Leaf (num_trues inputs \<ge> length inputs - num_trues inputs)"
  | (node) best partitions subtrees where
      "num_trues inputs \<noteq> 0" "length inputs - num_trues inputs \<noteq> 0" "cands \<noteq> []"
      "py_min cands (partition_entropy_by inputs) = Inr best"
      "partition_by inputs best = Inr partitions"
      "list_all2 (\<lambda>(attribute, subset) (k, subtree). k = Some attribute \<and>
          build_tree_id3_from subset (filter (\<lambda>a. a \<noteq> best) cands) = Inr subtree) partitions subtrees"
      "t = Node best (AList.update None (Leaf (num_trues inputs > length inputs - num_trues inputs)) subtrees)"
proof (cases "num_trues inputs = 0")
  case True
  with assms false_leaf show ?thesis by (simp add: build_false_leaf)
next
  case nt: False
  show ?thesis
  proof (cases "length inputs - num_trues inputs = 0")
    case True
    with assms nt true_leaf show ?thesis by (simp add: build_true_leaf)
  next
    case nf: False
    show ?thesis
    proof (cases "cands = []")
      case True
      with assms nt nf majority_leaf show ?thesis by (simp add: build_majority_leaf)
    next
      case ne: False
      show ?thesis
      proof (cases "py_min cands (partition_entropy_by inputs)")
        case (Inl e)
        with assms nt nf ne show ?thesis by (simp add: build_py_min_fails)
      next
        case best: (Inr best)
        show ?thesis
        proof (cases "partition_by inputs best")
          case (Inl e)
          with assms nt nf ne best show ?thesis by (simp add: build_partition_fails)
        next
          case parts: (Inr partitions)
          from assms obtain subtrees where
            col: "collect (map (\<lambda>(attribute, subset).
                  case build_tree_id3_from subset (filter (\<lambda>a. a \<noteq> best) cands) of
                    Inl e \<Rightarrow> Inl e
                  | Inr subtree \<Rightarrow> Inr (Some attribute, subtree)) partitions) = Inr subtrees"
            and t: "t = Node best (AList.update None (Leaf (num_trues inputs > length inputs - num_trues inputs)) subtrees)"
            unfolding build_node [OF nt nf ne best parts] by (auto split: sum.splits)
          have "list_all2 (\<lambda>(attribute, subset) (k, subtree). k = Some attribute \<and>
            build_tree_id3_from subset (filter (\<lambda>a. a \<noteq> best) cands) = Inr subtree) partitions subtrees"
            using collect_map_all2 [OF col]
            by (rule list_all2_mono) (auto split: sum.splits)
          with nt nf ne best parts t node show ?thesis by blast
        qed
      qed
    qed
  qed
qed

lemma fallback_majority_leaf:
  "num_trues inputs \<noteq> 0 \<Longrightarrow> length inputs - num_trues inputs \<noteq> 0 \<Longrightarrow> majority_fallback inputs []"
  unfolding num_trues_def by (subst majority_fallback.simps) (simp add: Let_def)

lemma fallback_node:
  "num_trues inputs \<noteq> 0 \<Longrightarrow> length inputs - num_trues inputs \<noteq> 0 \<Longrightarrow> cands \<noteq> [] \<Longrightarrow>
   py_min cands (partition_entropy_by inputs) = Inr best \<Longrightarrow>
   partition_by inputs best = Inr partitions \<Longrightarrow>
   majority_fallback inputs cands =
     list_ex (\<lambda>(attribute, subset). majority_fallback subset (filter (\<lambda>a. a \<noteq> best) cands)) partitions"
  unfolding num_trues_def by (subst majority_fallback.simps) (simp add: Let_def)

lemma fallback_false_leaf: "num_trues inputs = 0 \<Longrightarrow> \<not> majority_fallback inputs cands"
  unfolding num_trues_def by (subst majority_fallback.simps) (simp add: Let_def)

lemma fallback_true_leaf: "length inputs - num_trues inputs = 0 \<Longrightarrow> \<not> majority_fallback inputs cands"
  unfolding num_trues_def by (subst majority_fallback.simps) (simp add: Let_def)

lemma num_trues_0: "num_trues inputs = 0 \<Longrightarrow> (x, l) \<in> set inputs \<Longrightarrow> l = False"
  by (auto simp: num_trues_def filter_empty_conv)

lemma num_falses_0: "length inputs - num_trues inputs = 0 \<Longrightarrow> (x, l) \<in> set inputs \<Longrightarrow> l = True"
proof (rule ccontr)
  assume a: "length inputs - num_trues inputs = 0" and m: "(x, l) \<in> set inputs" and "l \<noteq> True"
  then have "\<not> (\<lambda>(item, label). label) (x, l)" by simp
  from length_filter_less [of "(x, l)" inputs "\<lambda>(item, label). label"] m this a show False
    by (simp add: num_trues_def)
qed

text \<open>Lookup through the partitions and the subtrees built from them.\<close>

lemma all2_lookup:
  "list_all2 (\<lambda>(attribute, subset) (k, subtree). k = Some attribute \<and> R subset subtree) partitions subtrees \<Longrightarrow>
   map_of partitions v = Some sub \<Longrightarrow>
   \<exists>subtree. map_of subtrees (Some v) = Some subtree \<and> R sub subtree"
  by (induction partitions subtrees rule: list_all2_induct) (auto split: if_splits)

lemma all2_subtree:
  "list_all2 (\<lambda>(attribute, subset) (k, subtree). k = Some attribute \<and> R subset subtree) partitions subtrees \<Longrightarrow>
   (k, subtree) \<in> set subtrees \<Longrightarrow>
   \<exists>attribute sub. (attribute, sub) \<in> set partitions \<and> k = Some attribute \<and> R sub subtree"
  by (induction partitions subtrees rule: list_all2_induct) auto

subsection \<open>Invariants of the builder\<close>

lemma build_has_missing_entry:
  "build_tree_id3_from inputs cands = Inr t \<Longrightarrow> has_missing_entry t"
proof (induction inputs cands arbitrary: t rule: build_tree_id3_from.induct)
  case (1 inputs cands)
  from "1.prems" show ?case
  proof (cases rule: build_cases)
    case (node best partitions subtrees)
    have "has_missing_entry subtree" if "(k, subtree) \<in> set subtrees" for k subtree
    proof -
      from all2_subtree [OF node(6) that] obtain attribute sub where
        "(attribute, sub) \<in> set partitions"
        "build_tree_id3_from sub (filter (\<lambda>a. a \<noteq> best) cands) = Inr subtree"
        by blast
      with "1.IH" node show ?thesis
        by (auto simp: num_trues_def)
    qed
    then have "list_all (\<lambda>(k, subtree). has_missing_entry subtree)
        (AList.update None (Leaf (num_trues inputs > length inputs - num_trues inputs)) subtrees)"
      by (auto simp: list_all_iff dest!: set_update_cases)
    with node show ?thesis
      by (simp add: dom_update)
  qed simp_all
qed

lemma classify_total:
  "has_missing_entry t \<Longrightarrow> \<exists>b. classify t x = Inr b"
proof (induction t x rule: classify.induct)
  case (1 b input)
  then show ?case by simp
next
  case (2 attribute subtree_dict input)
  define key where "key = (if map_of input attribute \<notin> fst ` set subtree_dict then None else map_of input attribute)"
  from 2(2) have "key \<in> fst ` set subtree_dict"
    by (auto simp: key_def)
  then obtain subtree where st: "map_of subtree_dict key = Some subtree"
    by (metis domD dom_map_of_conv_image_fst)
  then have "(key, subtree) \<in> set subtree_dict"
    by (rule map_of_SomeD)
  with 2(2) have "has_missing_entry subtree"
    by (auto simp: list_all_iff)
  with "2.IH" [OF refl key_def st] st show ?case
    by (simp add: key_def Let_def)
qed

lemma build_fits_training:
  "build_tree_id3_from inputs cands = Inr t \<Longrightarrow> \<not> majority_fallback inputs cands \<Longrightarrow>
   (x, l) \<in> set inputs \<Longrightarrow> classify t x = Inr l"
proof (induction inputs cands arbitrary: t rule: build_tree_id3_from.induct)
  case (1 inputs cands)
  from "1.prems"(1) show ?case
  proof (cases rule: build_cases)
    case false_leaf
    with num_trues_0 [OF false_leaf(1) "1.prems"(3)] show ?thesis by simp
  next
    case true_leaf
    with num_falses_0 [OF true_leaf(2) "1.prems"(3)] show ?thesis by simp
  next
    case majority_leaf
    with "1.prems"(2) fallback_majority_leaf show ?thesis by blast
  next
    case (node best partitions subtrees)
    let ?new = "filter (\<lambda>a. a \<noteq> best) cands"
    let ?dict = "AList.update None (Leaf (num_trues inputs > length inputs - num_trues inputs)) subtrees"
    from partition_by_lookup [OF node(5) "1.prems"(3)] obtain v sub where
      v: "map_of x best = Some v" and sub: "map_of partitions v = Some sub"
      and mem: "(x, l) \<in> set sub"
      by auto
    from all2_lookup [OF node(6) sub] obtain subtree where
      st: "map_of subtrees (Some v) = Some subtree"
      and built: "build_tree_id3_from sub ?new = Inr subtree"
      by blast
    from sub have in_parts: "(v, sub) \<in> set partitions"
      by (rule map_of_SomeD)
    from "1.prems"(2) in_parts have no_fb: "\<not> majority_fallback sub ?new"
      unfolding fallback_node [OF node(1-5)] by (auto simp: list_ex_iff)
    have IH: "classify subtree x = Inr l"
      using "1.IH" [OF refl refl refl _ _ node(3,4,5) refl in_parts refl built no_fb mem] node(1,2)
      by (simp add: num_trues_def)
    from st have lookup: "map_of ?dict (Some v) = Some subtree"
      by (simp add: update_conv')
    then have "Some v \<in> fst ` set ?dict"
      by (metis domI dom_map_of_conv_image_fst)
    with v lookup IH node(7) show ?thesis
      by (simp add: Let_def)
  qed
qed

subsection \<open>Logarithms and the entropies of the hiring data\<close>

lemma log2_4: "log 2 4 = 2"
proof -
  have "log 2 ((2::real) ^ 2) = 2" by (subst log_nat_power) simp_all
  then show ?thesis by simp
qed

lemma log2_3_lower: "19 / 12 < log 2 3"
proof -
  have "real 19 < log 2 ((3::real) ^ 12)"
    by (rule less_log_of_power) simp_all
  also have "log 2 ((3::real) ^ 12) = real 12 * log 2 3"
    by (rule log_nat_power) simp
  finally show ?thesis by simp
qed

lemma log2_3_upper: "log 2 3 < 8 / 5"
proof -
  have "real 5 * log 2 3 = log 2 ((3::real) ^ 5)"
    by (rule log_nat_power [symmetric]) simp
  also have "\<dots> = log 2 (real ((3::nat) ^ 5))"
    by simp
  also have "\<dots> < real 8"
    by (rule log_of_power_less) simp_all
  finally show ?thesis by simp
qed

lemma log2_5_lower: "23 / 10 < log 2 5"
proof -
  have "real 23 < log 2 ((5::real) ^ 10)"
    by (rule less_log_of_power) simp_all
  also have "log 2 ((5::real) ^ 10) = real 10 * log 2 5"
    by (rule log_nat_power) simp
  finally show ?thesis by simp
qed

lemma log2_5_upper: "log 2 5 < 7 / 3"
proof -
  have "real 3 * log 2 5 = log 2 ((5::real) ^ 3)"
    by (rule log_nat_power [symmetric]) simp
  also have "\<dots> = log 2 (real ((5::nat) ^ 3))"
    by simp
  also have "\<dots> < real 7"
    by (rule log_of_power_less) simp_all
  finally show ?thesis by simp
qed

lemma log2_7_lower: "14 / 5 < log 2 7"
proof -
  have "real 14 < log 2 ((7::real) ^ 5)"
    by (rule less_log_of_power) simp_all
  also have "log 2 ((7::real) ^ 5) = real 5 * log 2 7"
    by (rule log_nat_power) simp
  finally show ?thesis by simp
qed

lemmas data_defs = hiring_inputs_def senior_inputs_def mid_inputs_def junior_inputs_def

lemmas partition_defs = partition_by_def group_by_def attribute_of_def

lemmas entropy_defs = partition_entropy_by_def partition_entropy_def data_entropy_def
  class_probabilities_def Counter_def entropy_def

lemma part_level:
  "partition_by hiring_inputs ''level'' =
     Inr [(''Senior'', senior_inputs), (''Mid'', mid_inputs), (''Junior'', junior_inputs)]"
  by (simp add: partition_defs data_defs)

lemma log2_6: "log 2 6 = 1 + log 2 3"
proof -
  have "log 2 (2 * 3) = log 2 2 + log 2 3"
    by (subst log_mult) simp_all
  then show ?thesis by simp
qed

lemmas log_facts = log_divide log2_4 log2_6

lemma pe_level:
  "partition_entropy_by hiring_inputs ''level'' = Inr ((5 * log 2 5 - 3 * log 2 3 - 2) / 7)"
  by (simp add: partition_defs hiring_inputs_def entropy_defs log_facts) argo

lemma pe_lang:
  "partition_entropy_by hiring_inputs ''lang'' = Inr ((7 * log 2 7 - 5 * log 2 5 + 4) / 14)"
  by (simp add: partition_defs hiring_inputs_def entropy_defs log_facts) argo

lemma pe_tweets:
  "partition_entropy_by hiring_inputs ''tweets'' = Inr (log 2 7 - 1 - 9 / 14 * log 2 3)"
  by (simp add: partition_defs hiring_inputs_def entropy_defs log_facts) argo

lemma pe_phd:
  "partition_entropy_by hiring_inputs ''phd'' = Inr ((22 - 6 * log 2 3) / 14)"
  by (simp add: partition_defs hiring_inputs_def entropy_defs log_facts) argo

lemma pe_senior_lang:
  "partition_entropy_by senior_inputs ''lang'' = Inr (2 / 5)"
  by (simp add: partition_defs data_defs entropy_defs log_facts)

lemma pe_senior_tweets:
  "partition_entropy_by senior_inputs ''tweets'' = Inr 0"
  by (simp add: partition_defs data_defs entropy_defs log_facts)

lemma pe_senior_phd:
  "partition_entropy_by senior_inputs ''phd'' = Inr (3 / 5 * log 2 3)"
  by (simp add: partition_defs data_defs entropy_defs log_facts) argo

lemma pe_junior_lang:
  "partition_entropy_by junior_inputs ''lang'' = Inr (3 / 5 * log 2 3)"
  by (simp add: partition_defs data_defs entropy_defs log_facts) argo

lemma pe_junior_tweets:
  "partition_entropy_by junior_inputs ''tweets'' = Inr (3 / 5 * log 2 3)"
  by (simp add: partition_defs data_defs entropy_defs log_facts) argo

lemma pe_junior_phd:
  "partition_entropy_by junior_inputs ''phd'' = Inr 0"
  by (simp add: partition_defs data_defs entropy_defs log_facts)

text \<open>
  At the root the entropy of the split on \<open>level\<close> (about 0.69) is below the three
  others (about 0.86, 0.79 and 0.89) by more than 1/20.
\<close>

lemma root_entropy_margins:
  "(5 * log 2 5 - 3 * log 2 3 - 2) / 7 + 1 / 20 < (7 * log 2 7 - 5 * log 2 5 + 4) / 14"
  "(5 * log 2 5 - 3 * log 2 3 - 2) / 7 + 1 / 20 < log 2 7 - 1 - 9 / 14 * log 2 3"
  "(5 * log 2 5 - 3 * log 2 3 - 2) / 7 + 1 / 20 < (22 - 6 * log 2 3) / 14"
  using log2_3_lower log2_3_upper log2_5_lower log2_5_upper log2_7_lower by argo+

lemma min_root:
  "py_min [''level'', ''lang'', ''tweets'', ''phd''] (partition_entropy_by hiring_inputs) = Inr ''level''"
proof -
  have 1: "\<not> (7 * log 2 7 - 5 * log 2 5 + 4) / 14 < (5 * log 2 5 - 3 * log 2 3 - 2) / 7"
    using root_entropy_margins(1) by argo
  have 2: "\<not> log 2 7 - 1 - 9 / 14 * log 2 3 < (5 * log 2 5 - 3 * log 2 3 - 2) / 7"
    using root_entropy_margins(2) by argo
  have 3: "\<not> (22 - 6 * log 2 3) / 14 < (5 * log 2 5 - 3 * log 2 3 - 2) / 7"
    using root_entropy_margins(3) by argo
  show ?thesis
    by (simp only: py_min.simps min_loop.simps pe_level pe_lang pe_tweets pe_phd sum.case 1 2 3 if_False)
qed

lemma min_senior:
  "py_min [''lang'', ''tweets'', ''phd''] (partition_entropy_by senior_inputs) = Inr ''tweets''"
proof -
  have 1: "(0::real) < 2 / 5" by simp
  have 2: "\<not> 3 / 5 * log 2 3 < 0"
    using log2_3_lower by argo
  show ?thesis
    by (simp only: py_min.simps min_loop.simps pe_senior_lang pe_senior_tweets pe_senior_phd sum.case
        1 2 if_True if_False)
qed

lemma min_junior:
  "py_min [''lang'', ''tweets'', ''phd''] (partition_entropy_by junior_inputs) = Inr ''phd''"
proof -
  have 1: "\<not> 3 / 5 * log 2 3 < 3 / 5 * log 2 3" by simp
  have 2: "(0::real) < 3 / 5 * log 2 3"
    using log2_3_lower by argo
  show ?thesis
    by (simp only: py_min.simps min_loop.simps pe_junior_lang pe_junior_tweets pe_junior_phd sum.case
        1 2 if_True if_False)
qed


lemma part_senior_tweets:
  "partition_by senior_inputs ''tweets'' =
     Inr [(''no'', filter (\<lambda>(input, label). map_of input ''tweets'' = Some ''no'') senior_inputs),
          (''yes'', filter (\<lambda>(input, label). map_of input ''tweets'' = Some ''yes'') senior_inputs)]"
  by (simp add: partition_defs data_defs)

lemma part_junior_phd:
  "partition_by junior_inputs ''phd'' =
     Inr [(''no'', filter (\<lambda>(input, label). map_of input ''phd'' = Some ''no'') junior_inputs),
          (''yes'', filter (\<lambda>(input, label). map_of input ''phd'' = Some ''yes'') junior_inputs)]"
  by (simp add: partition_defs data_defs)

lemma build_mid: "build_tree_id3_from mid_inputs cands = Inr (Leaf True)"
  by (rule build_true_leaf) (simp_all add: num_trues_def data_defs)

lemma build_senior:
  "build_tree_id3_from senior_inputs [''lang'', ''tweets'', ''phd''] =
     Inr (Node ''tweets'' [(Some ''no'', Leaf False), (Some ''yes'', Leaf True), (None, Leaf False)])"
proof -
  have no: "build_tree_id3_from (filter (\<lambda>(input, label). map_of input ''tweets'' = Some ''no'') senior_inputs) cands
      = Inr (Leaf False)" for cands
    by (rule build_false_leaf) (simp add: num_trues_def data_defs)
  have yes: "build_tree_id3_from (filter (\<lambda>(input, label). map_of input ''tweets'' = Some ''yes'') senior_inputs) cands
      = Inr (Leaf True)" for cands
    by (rule build_true_leaf) (simp_all add: num_trues_def data_defs)
  have n: "num_trues senior_inputs = 2" "length senior_inputs = 5"
    by (simp_all add: num_trues_def data_defs)
  show ?thesis
    by (subst build_node [OF _ _ _ min_senior part_senior_tweets]) (simp_all add: n no yes)
qed

lemma build_junior:
  "build_tree_id3_from junior_inputs [''lang'', ''tweets'', ''phd''] =
     Inr (Node ''phd'' [(Some ''no'', Leaf True), (Some ''yes'', Leaf False), (None, Leaf True)])"
proof -
  have no: "build_tree_id3_from (filter (\<lambda>(input, label). map_of input ''phd'' = Some ''no'') junior_inputs) cands
      = Inr (Leaf True)" for cands
    by (rule build_true_leaf) (simp_all add: num_trues_def data_defs)
  have yes: "build_tree_id3_from (filter (\<lambda>(input, label). map_of input ''phd'' = Some ''yes'') junior_inputs) cands
      = Inr (Leaf False)" for cands
    by (rule build_false_leaf) (simp add: num_trues_def data_defs)
  have n: "num_trues junior_inputs = 3" "length junior_inputs = 5"
    by (simp_all add: num_trues_def data_defs)
  show ?thesis
    by (subst build_node [OF _ _ _ min_junior part_junior_phd]) (simp_all add: n no yes)
qed

lemma first_pass_hiring:
  "first_pass hiring_inputs None = Inr [''level'', ''lang'', ''tweets'', ''phd'']"
  by (simp add: first_pass_def hiring_inputs_def)

lemma build_hiring_from:
  "build_tree_id3_from hiring_inputs [''level'', ''lang'', ''tweets'', ''phd''] = Inr hiring_tree"
proof -
  have n: "num_trues hiring_inputs = 9" "length hiring_inputs = 14"
    by (simp_all add: num_trues_def data_defs)
  show ?thesis
    by (subst build_node [OF _ _ _ min_root part_level])
       (simp_all add: n build_senior build_mid build_junior hiring_tree_def)
qed

lemma build_hiring: "build_tree_id3 hiring_inputs None = Inr hiring_tree"
  by (simp add: build_tree_id3_def first_pass_hiring build_hiring_from)

lemma no_fallback_hiring:
  "\<not> majority_fallback hiring_inputs [''level'', ''lang'', ''tweets'', ''phd'']"
proof -
  have n: "num_trues hiring_inputs = 9" "length hiring_inputs = 14"
    "num_trues senior_inputs = 2" "length senior_inputs = 5"
    "num_trues junior_inputs = 3" "length junior_inputs = 5"
    by (simp_all add: num_trues_def data_defs)
  have mid: "\<not> majority_fallback mid_inputs cands" for cands
    by (rule fallback_true_leaf) (simp add: num_trues_def data_defs)
  have senior: "\<not> majority_fallback senior_inputs [''lang'', ''tweets'', ''phd'']"
    by (subst fallback_node [OF _ _ _ min_senior part_senior_tweets])
       (simp_all add: n fallback_false_leaf fallback_true_leaf num_trues_def data_defs)
  have junior: "\<not> majority_fallback junior_inputs [''lang'', ''tweets'', ''phd'']"
    by (subst fallback_node [OF _ _ _ min_junior part_junior_phd])
       (simp_all add: n fallback_false_leaf fallback_true_leaf num_trues_def data_defs)
  show ?thesis
    by (subst fallback_node [OF _ _ _ min_root part_level]) (simp_all add: n mid senior junior)
qed

lemma missing_child_strict_majority:
  assumes "build_tree_id3_from inputs cands = Inr (Node attribute subtree_dict)"
  shows "map_of subtree_dict None = Some (Leaf (num_trues inputs > length inputs - num_trues inputs))"
  using assms by (cases rule: build_cases) (simp_all add: update_conv')

section \<open>The claims\<close>

subsection \<open>Fit on the training set\<close>

text \<open>
  C1.  Let a tree be built by \<open>build_tree_id3\<close> from a training set, in a run where no
  node exhausts its candidate attributes and falls back to a majority leaf (every leaf
  comes from the same-label condition).  Then classifying any training example with
  that tree returns exactly the label of the example.
\<close>

theorem training_fit:
  assumes "build_tree_id3 inputs split_candidates = Inr t"
    and "first_pass inputs split_candidates = Inr cands"
    and "\<not> majority_fallback inputs cands"
    and "(x, l) \<in> set inputs"
  shows "classify t x = Inr l"
proof -
  from assms(1,2) have "build_tree_id3_from inputs cands = Inr t"
    by (simp add: build_tree_id3_def)
  from this assms(3,4) show ?thesis
    by (rule build_fits_training)
qed

theorem training_fit_witness:
  "build_tree_id3 hiring_inputs None = Inr hiring_tree \<and>
   first_pass hiring_inputs None = Inr [''level'', ''lang'', ''tweets'', ''phd''] \<and>
   \<not> majority_fallback hiring_inputs [''level'', ''lang'', ''tweets'', ''phd''] \<and>
   list_all (\<lambda>(x, l). classify hiring_tree x = Inr l) hiring_inputs"
proof -
  have "classify hiring_tree x = Inr l" if "(x, l) \<in> set hiring_inputs" for x l
    using build_hiring first_pass_hiring no_fallback_hiring that by (rule training_fit)
  then have "list_all (\<lambda>(x, l). classify hiring_tree x = Inr l) hiring_inputs"
    unfolding list_all_iff by blast
  with build_hiring first_pass_hiring no_fallback_hiring show ?thesis
    by blast
qed

subsection \<open>The worked example\<close>

text \<open>
  C2.  The tree built by \<open>build_tree_id3\<close> from the 14 rows of the hiring data (attributes
  level, lang, tweets, phd) is the tree printed in the notebook; it classifies
  Junior / Java / tweets / no phd as \<open>True\<close> and Junior / Java / tweets / phd as \<open>False\<close>.
  The entropies are compared as real numbers.
\<close>

theorem hiring_scenario:
  "build_tree_id3 hiring_inputs None = Inr hiring_tree \<and>
   classify hiring_tree
     [(''level'', ''Junior''), (''lang'', ''Java''), (''tweets'', ''yes''), (''phd'', ''no'')] = Inr True \<and>
   classify hiring_tree
     [(''level'', ''Junior''), (''lang'', ''Java''), (''tweets'', ''yes''), (''phd'', ''yes'')] = Inr False"
  by (simp add: build_hiring) (simp add: hiring_tree_def)

subsection \<open>The missing-value child\<close>

text \<open>
  C3.  The claim is that the \<open>None\<close> child of a decision node is the majority leaf of
  the examples at the node, and the leaf \<open>True\<close> on a tie.  The builder writes
  \<open>num_trues > num_falses\<close> for this child (see \<open>missing_child_strict_majority\<close>), while
  its majority leaf for exhausted candidates is \<open>num_trues >= num_falses\<close>: on one
  \<open>True\<close> and one \<open>False\<close> example the \<open>None\<close> child is the leaf \<open>False\<close>, and the
  majority leaf of the sibling branch is \<open>True\<close>.
\<close>

theorem missing_child_on_tie:
  "build_tree_id3 tie_inputs None =
     Inr (Node ''phd'' [(Some ''no'', Leaf True), (Some ''yes'', Leaf False), (None, Leaf False)]) \<and>
   build_tree_id3 bare_inputs None = Inr (Leaf True)"
proof -
  have n: "num_trues tie_inputs \<noteq> 0" "length tie_inputs - num_trues tie_inputs \<noteq> 0"
    "num_trues bare_inputs \<noteq> 0" "length bare_inputs - num_trues bare_inputs \<noteq> 0"
    by (simp_all add: num_trues_def tie_inputs_def bare_inputs_def)
  have best: "py_min [''phd''] (partition_entropy_by tie_inputs) = Inr ''phd''"
    by (simp add: partition_entropy_by_def partition_entropy_def partition_defs tie_inputs_def)
  have parts: "partition_by tie_inputs ''phd'' =
      Inr [(''no'', [([(''phd'', ''no'')], True)]), (''yes'', [([(''phd'', ''yes'')], False)])]"
    by (simp add: partition_defs tie_inputs_def)
  have no: "build_tree_id3_from [([(''phd'', ''no'')], True)] [] = Inr (Leaf True)"
    by (rule build_true_leaf) (simp_all add: num_trues_def)
  have yes: "build_tree_id3_from [([(''phd'', ''yes'')], False)] [] = Inr (Leaf False)"
    by (rule build_false_leaf) (simp add: num_trues_def)
  have "build_tree_id3_from tie_inputs [''phd''] =
      Inr (Node ''phd'' [(Some ''no'', Leaf True), (Some ''yes'', Leaf False), (None, Leaf False)])"
    by (subst build_node [OF n(1,2) _ best parts])
       (simp_all add: no yes num_trues_def tie_inputs_def)
  moreover have "build_tree_id3_from bare_inputs [] = Inr (Leaf True)"
    by (subst build_majority_leaf [OF n(3,4)]) (simp add: num_trues_def bare_inputs_def)
  ultimately show ?thesis
    by (simp add: build_tree_id3_def first_pass_def tie_inputs_def bare_inputs_def)
qed

subsection \<open>Examples that lack the attribute\<close>

text \<open>
  C4, as the code has it.  \<open>partition_by\<close> reads \<open>x[0][attribute]\<close>: when some example
  lacks the attribute, the call raises \<open>KeyError\<close> and returns no group at all (the
  keys of the groups are attribute values, never the \<open>None\<close> that \<open>classify\<close> consults).
\<close>

theorem partition_by_missing_attribute:
  "\<exists>x\<in>set inputs. attribute \<notin> fst ` set (fst x) \<Longrightarrow> partition_by inputs attribute = Inl KeyError"
  unfolding partition_by_def group_by_def
  by (rule group_by_loop_KeyError)
     (auto simp: attribute_of_def map_of_eq_None_iff split: option.splits)

theorem partition_by_missing_attribute_witness:
  "(\<exists>x\<in>set [([(''level'', ''Mid'')], True), ([(''lang'', ''R'')], False)].
      ''level'' \<notin> fst ` set (fst x)) \<and>
   partition_by [([(''level'', ''Mid'')], True), ([(''lang'', ''R'')], False)] ''level'' = Inl KeyError"
proof -
  have h: "\<exists>x\<in>set [([(''level'', ''Mid'')], True), ([(''lang'', ''R'')], False)].
      ''level'' \<notin> fst ` set (fst x)"
    by simp
  from h partition_by_missing_attribute [OF h] show ?thesis
    by (rule conjI)
qed

text \<open>The claim as stated fails: a single example without the attribute makes the call fail.\<close>

theorem partition_by_sentinel_counterexample:
  "partition_by [([(''lang'', ''Java'')], True)] ''level'' = Inl KeyError"
  by (simp add: partition_defs)

subsection \<open>Classification never fails on a built tree\<close>

text \<open>
  C5.  For every tree returned by \<open>build_tree_id3\<close> and every input (whatever attributes
  it has or lacks, whatever their values), \<open>classify\<close> returns a boolean and raises no
  error.  \<open>classify\<close> is a total function: its recursion descends into a subtree.
\<close>

theorem classify_never_fails:
  "build_tree_id3 inputs split_candidates = Inr t \<Longrightarrow> \<exists>b. classify t x = Inr b"
proof -
  assume "build_tree_id3 inputs split_candidates = Inr t"
  then obtain cands where "build_tree_id3_from inputs cands = Inr t"
    by (auto simp: build_tree_id3_def split: sum.splits)
  then have "has_missing_entry t"
    by (rule build_has_missing_entry)
  then show ?thesis
    by (rule classify_total)
qed

theorem classify_never_fails_witness:
  "build_tree_id3 hiring_inputs None = Inr hiring_tree \<and>
   (\<exists>b. classify hiring_tree [(''level'', ''Intern''), (''shoe'', ''44'')] = Inr b)"
  using classify_never_fails [OF build_hiring] build_hiring
  by blast

subsection \<open>The missing-value entry at every decision node\<close>

text \<open>
  C6.  Every decision node of a tree returned by \<open>build_tree_id3\<close>, at every depth, has
  the key \<open>None\<close> in its dictionary of subtrees.
\<close>

theorem missing_entry_everywhere:
  "build_tree_id3 inputs split_candidates = Inr t \<Longrightarrow> has_missing_entry t"
proof -
  assume "build_tree_id3 inputs split_candidates = Inr t"
  then obtain cands where "build_tree_id3_from inputs cands = Inr t"
    by (auto simp: build_tree_id3_def split: sum.splits)
  then show ?thesis
    by (rule build_has_missing_entry)
qed

theorem missing_entry_everywhere_witness:
  "build_tree_id3 hiring_inputs None = Inr hiring_tree \<and> has_missing_entry hiring_tree"
  using missing_entry_everywhere [OF build_hiring] build_hiring
  by (rule conjI [rotated])

subsection \<open>Partitions lose and duplicate nothing\<close>

text \<open>
  C7.  When every example has the attribute, \<open>partition_by\<close> returns groups that hold
  each example exactly once: the groups together are the input as a multiset, the sizes
  of the groups add up to the size of the input, and every example is in one and only
  one group.
\<close>

theorem partition_exactly_once:
  assumes "\<forall>x\<in>set inputs. attribute \<in> fst ` set (fst x)"
  shows "\<exists>parts. partition_by inputs attribute = Inr parts \<and>
           mset (concat (map snd parts)) = mset inputs \<and>
           sum_list (map (\<lambda>(v, g). length g) parts) = length inputs \<and>
           (\<forall>x\<in>set inputs. \<exists>!p. p \<in> set parts \<and> x \<in> set (snd p))"
proof -
  have "\<forall>x\<in>set inputs. \<exists>k. attribute_of attribute x = Inr k"
    using assms by (auto simp: attribute_of_def map_of_eq_None_iff split: option.splits)
  from group_by_loop_succeeds [OF this] obtain parts where
    loop: "group_by_loop [] inputs (attribute_of attribute) = Inr parts"
    by blast
  then have parts: "partition_by inputs attribute = Inr parts"
    by (simp add: partition_by_def group_by_def)
  have ms: "mset (concat (map snd parts)) = mset inputs"
    using mset_group_by_loop [OF loop] by simp
  have "sum_list (map (\<lambda>(v, g). length g) parts) = length (concat (map snd parts))"
    by (simp add: length_concat comp_def case_prod_unfold)
  also have "\<dots> = length inputs"
    using ms by (metis size_mset)
  finally have len: "sum_list (map (\<lambda>(v, g). length g) parts) = length inputs" .
  have dist: "distinct (map fst parts)"
    using distinct_group_by_loop [OF loop] by simp
  have key: "attribute_of attribute x = Inr (fst p)" if "p \<in> set parts" "x \<in> set (snd p)" for p x
  proof -
    from that(1) have "(fst p, snd p) \<in> set parts" by simp
    with dist have "map_of parts (fst p) = Some (snd p)"
      by (simp only: map_of_eq_Some_iff)
    with map_of_group_by_loop [OF loop, of "fst p"] that(2) show ?thesis
      by (auto split: if_splits)
  qed
  have content: "snd p = filter (\<lambda>x. attribute_of attribute x = Inr (fst p)) inputs" if "p \<in> set parts" for p
  proof -
    from that have "(fst p, snd p) \<in> set parts" by simp
    with dist have "map_of parts (fst p) = Some (snd p)"
      by (simp only: map_of_eq_Some_iff)
    with map_of_group_by_loop [OF loop, of "fst p"] show ?thesis
      by (auto split: if_splits)
  qed
  have "\<exists>!p. p \<in> set parts \<and> x \<in> set (snd p)" if x: "x \<in> set inputs" for x
  proof -
    from partition_by_lookup [OF parts x] obtain v sub where
      "map_of parts v = Some sub" "x \<in> set sub" by blast
    then have ex: "(v, sub) \<in> set parts \<and> x \<in> set (snd (v, sub))"
      by (auto dest: map_of_SomeD)
    show ?thesis
    proof (rule ex1I [of _ "(v, sub)"])
      show "(v, sub) \<in> set parts \<and> x \<in> set (snd (v, sub))" by (rule ex)
    next
      fix p assume p: "p \<in> set parts \<and> x \<in> set (snd p)"
      with key [of p x] key [of "(v, sub)" x] ex have "fst p = v" by simp
      moreover from content [of p] content [of "(v, sub)"] p ex this have "snd p = sub" by simp
      ultimately show "p = (v, sub)" by (cases p) simp
    qed
  qed
  with parts ms len show ?thesis by blast
qed

theorem partition_exactly_once_witness:
  "list_all (\<lambda>x. ''lang'' \<in> fst ` set (fst x)) senior_inputs \<and>
   (\<exists>parts. partition_by senior_inputs ''lang'' = Inr parts \<and>
      mset (concat (map snd parts)) = mset senior_inputs \<and>
      sum_list (map (\<lambda>(v, g). length g) parts) = length senior_inputs \<and>
      (\<forall>x\<in>set senior_inputs. \<exists>!p. p \<in> set parts \<and> x \<in> set (snd p)))"
proof -
  have h: "\<forall>x\<in>set senior_inputs. ''lang'' \<in> fst ` set (fst x)"
    by (simp add: data_defs)
  then have "list_all (\<lambda>x. ''lang'' \<in> fst ` set (fst x)) senior_inputs"
    by (simp only: list_all_iff)
  from this partition_exactly_once [OF h] show ?thesis
    by (rule conjI)
qed

subsection \<open>No training example\<close>

text \<open>
  C8, as the code has it.  The code has no \<open>InvalidInput\<close> error.  With no example and
  no candidates given, \<open>inputs[0]\<close> raises \<open>IndexError\<close>; with no example and a list of
  candidates, the count of \<open>True\<close> labels is zero and the leaf \<open>False\<close> is returned.
\<close>

theorem build_no_examples:
  "build_tree_id3 [] None = Inl IndexError \<and>
   (\<forall>cands. build_tree_id3 [] (Some cands) = Inr (Leaf False))"
  by (simp add: build_tree_id3_def first_pass_def build_false_leaf num_trues_def)

text \<open>
  The claim as stated fails: the default call raises \<open>IndexError\<close>, and a tree is
  returned for no example and given candidates.
\<close>

theorem build_no_examples_counterexample:
  "build_tree_id3 [] None = Inl IndexError \<and>
   build_tree_id3 [] (Some [''level'', ''lang'']) = Inr (Leaf False)"
  by (simp add: build_tree_id3_def first_pass_def build_false_leaf num_trues_def)

subsection \<open>A forest of one tree\<close>

text \<open>
  C9.  \<open>forest_classify\<close> on the forest \<open>[t]\<close> gives what \<open>classify\<close> gives on \<open>t\<close>, for
  every tree and input: the same boolean, or the same error.
\<close>

theorem forest_of_one: "forest_classify [t] x = classify t x"
  by (cases "classify t x") (simp_all add: forest_classify_def Counter_def)

subsection \<open>A tied vote\<close>

text \<open>
  C10.  When every tree of a non-empty forest classifies the input and the votes are
  as many \<open>True\<close> as \<open>False\<close>, \<open>forest_classify\<close> returns the vote of the first tree.
\<close>

theorem forest_tie_first_tree:
  assumes "collect (map (\<lambda>tree. classify tree x) (t # ts)) = Inr votes"
    and "count_list votes True = count_list votes False"
  shows "forest_classify (t # ts) x = classify t x"
proof -
  from assms(1) obtain b vs where votes: "votes = b # vs" and b: "classify t x = Inr b"
    using collect_Cons [of "classify t x" "map (\<lambda>tree. classify tree x) ts" votes] by auto
  from assms(2) have "count_list (b # vs) (\<not> b) \<le> count_list (b # vs) b"
    unfolding votes by (cases b) simp_all
  from most_common_votes [OF this]
  have mc: "most_common_1 (Counter votes) = [(b, count_list (b # vs) b)]"
    unfolding votes .
  have "forest_classify (t # ts) x =
      (case most_common_1 (Counter votes) of [] \<Rightarrow> Inl IndexError | item # _ \<Rightarrow> Inr (fst item))"
    by (simp only: forest_classify_def assms(1) sum.case Let_def)
  also have "\<dots> = Inr b"
    by (simp only: mc list.case fst_conv)
  finally show ?thesis
    by (simp only: b)
qed

theorem forest_tie_first_tree_witness:
  "collect (map (\<lambda>tree. classify tree []) [Leaf False, Leaf True]) = Inr [False, True] \<and>
   count_list [False, True] True = count_list [False, True] False \<and>
   forest_classify [Leaf False, Leaf True] [] = Inr False"
proof -
  have h1: "collect (map (\<lambda>tree. classify tree []) [Leaf False, Leaf True]) = Inr [False, True]"
    by simp
  have h2: "count_list [False, True] True = count_list [False, True] False"
    by simp
  from forest_tie_first_tree [OF h1 h2] h1 h2 show ?thesis
    by simp
qed

end
